theory Spec2Isabelle
  imports Complex_Main
begin

section \<open>Data model (types.ts)\<close>

text \<open>
  A JavaScript \<open>number\<close> that is stored in the state (times, durations) is modelled
  as a \<open>real\<close>: the finite values with their exact order and exact arithmetic.
  Field names that clash with HOL constants or Isabelle keywords carry the name of
  their interface as a suffix (\<open>id_Segment\<close>, \<open>text_Segment\<close>, \<open>id_Image\<close>,
  \<open>file_Image\<close>). An optional field (\<open>assignedImageId?: string\<close>) is an
  \<open>option\<close>; \<open>None\<close> is \<open>undefined\<close>. Of a browser \<open>File\<close> only the name and
  the MIME type are kept.
\<close>

record File =
  name_File :: string
  type_File :: string

record Segment =
  id_Segment :: string
  startTime :: real
  endTime :: real
  text_Segment :: string
  visualPrompt :: string
  emotion :: string
  assignedImageId :: "string option"

record UploadedImage =
  id_Image :: string
  file_Image :: File
  url :: string
  name :: string

datatype Status = idle | analyzing | matching | ready | error

record ProcessingState =
  status :: Status
  message :: string

record VideoProject =
  audioFile :: "File option"
  audioUrl :: "string option"
  duration :: real
  segments :: "Segment list"

text \<open>
  The state of the \<open>App\<close> component: the \<open>useState\<close> cells that the handlers
  modelled below read and write.
\<close>

record App =
  project :: VideoProject
  images :: "UploadedImage list"
  processing :: ProcessingState
  currentTime :: real

abbreviation segs :: "App \<Rightarrow> Segment list" where
  "segs st \<equiv> segments (project st)"

definition initialApp :: App where
  "initialApp =
     \<lparr>project = \<lparr>audioFile = None, audioUrl = None, duration = 0, segments = []\<rparr>,
      images = [],
      processing = \<lparr>status = idle, message = []\<rparr>,
      currentTime = 0\<rparr>"

datatype js_error = TypeError

section \<open>Template literals: integers as decimal strings\<close>

definition digit :: "nat \<Rightarrow> char" where
  "digit d =
     (if d = 0 then CHR ''0'' else if d = 1 then CHR ''1'' else if d = 2 then CHR ''2''
      else if d = 3 then CHR ''3'' else if d = 4 then CHR ''4'' else if d = 5 then CHR ''5''
      else if d = 6 then CHR ''6'' else if d = 7 then CHR ''7'' else if d = 8 then CHR ''8''
      else CHR ''9'')"

fun string_of_nat :: "nat \<Rightarrow> string" where
  "string_of_nat n =
     (if n < 10 then [digit n] else string_of_nat (n div 10) @ [digit (n mod 10)])"

declare string_of_nat.simps [simp del]

text \<open>\<open>xs.map((x, index) => f(x, index))\<close>: a map that also passes the position.\<close>

definition mapi :: "(nat \<Rightarrow> 'a \<Rightarrow> 'b) \<Rightarrow> 'a list \<Rightarrow> 'b list" where
  "mapi f xs = map (\<lambda>(i, x). f i x) (enumerate 0 xs)"

text \<open>
  The same map with a callback that may throw: the first exception ends the map.
\<close>

fun mapM_sum :: "('a \<Rightarrow> 'e + 'b) \<Rightarrow> 'a list \<Rightarrow> 'e + 'b list" where
  "mapM_sum f [] = Inr []"
| "mapM_sum f (x # xs) =
     (case f x of
        Inl e \<Rightarrow> Inl e
      | Inr y \<Rightarrow> (case mapM_sum f xs of Inl e \<Rightarrow> Inl e | Inr ys \<Rightarrow> Inr (y # ys)))"

section \<open>geminiService.ts\<close>

text \<open>
  One item of the parsed service response (\<open>rawData\<close>), with the five fields the
  response schema requires.
\<close>

record RawItem =
  start_time :: real
  end_time :: real
  text_Item :: string
  visual_description :: string
  emotion_Item :: string

text \<open>
  \<open>analyzeAudioAndSegment\<close>. The service is outside the program: its answer is the
  parameter \<open>response\<close>, \<open>None\<close> when anything inside the \<open>try\<close> block throws (the
  file cannot be read, the request fails, the text is not JSON for an array), and
  the parsed array otherwise. \<open>clock index\<close> is what \<open>Date.now()\<close> returns in the
  callback for position \<open>index\<close>. The \<open>catch\<close> block rethrows one fixed message.
\<close>

definition analysisErrorMessage :: string where
  "analysisErrorMessage =
     ''Failed to analyze audio. Please ensure the file is supported and under the size limit.''"

definition analyzeAudioAndSegment ::
    "(nat \<Rightarrow> nat) \<Rightarrow> RawItem list option \<Rightarrow> string + Segment list" where
  "analyzeAudioAndSegment clock response =
     (case response of
        None \<Rightarrow> Inl analysisErrorMessage
      | Some rawData \<Rightarrow>
          Inr (mapi (\<lambda>index item.
                 \<lparr>id_Segment = ''seg-'' @ string_of_nat index @ ''-'' @ string_of_nat (clock index),
                  startTime = start_time item,
                  endTime = end_time item,
                  text_Segment = text_Item item,
                  visualPrompt = visual_description item,
                  emotion = emotion_Item item,
                  assignedImageId = None\<rparr>) rawData))"

text \<open>
  \<open>matchImagesToSegments\<close>. The \<open>forEach\<close> writes \<open>assignedImageId\<close> into the
  segment objects of the array it was given; the model returns the written
  segments. With \<open>images\<close> non-empty the index \<open>index % images.length\<close> is in range.
\<close>

definition matchImagesToSegments :: "Segment list \<Rightarrow> UploadedImage list \<Rightarrow> Segment list" where
  "matchImagesToSegments segments_in imgs =
     (let filledSegments = segments_in in
      if length imgs = 0 then filledSegments
      else mapi (\<lambda>index seg.
             let imageIndex = index mod length imgs
             in seg\<lparr>assignedImageId := Some (id_Image (imgs ! imageIndex))\<rparr>) filledSegments)"

section \<open>App.tsx: audio upload\<close>

text \<open>
  \<open>handleAudioUpload\<close> is asynchronous; it runs in three pieces, between which other
  handlers may run (the machine below interleaves them). \<open>handleAudioUpload_begin\<close> is the part before the first
  \<open>await\<close>, \<open>onloadedmetadata\<close> the callback that stores the duration, and
  \<open>handleAudioUpload_settle\<close> the part after the analysis call has resolved or
  rejected. The \<open>images\<close> the last part passes to \<open>matchImagesToSegments\<close> is the
  variable of the render in which the handler started: the parameter \<open>imgs\<close>.
\<close>

definition handleAudioUpload_begin :: "File \<Rightarrow> string \<Rightarrow> App \<Rightarrow> App" where
  "handleAudioUpload_begin f objectUrl prev =
     prev\<lparr>project := (project prev)\<lparr>audioFile := Some f, audioUrl := Some objectUrl,
                                     segments := []\<rparr>,
          processing := \<lparr>status = analyzing,
                         message = ''Listening and analyzing audio structure...''\<rparr>\<rparr>"

definition onloadedmetadata :: "real \<Rightarrow> App \<Rightarrow> App" where
  "onloadedmetadata d p = p\<lparr>project := (project p)\<lparr>duration := d\<rparr>\<rparr>"

definition handleAudioUpload_settle ::
    "UploadedImage list \<Rightarrow> string + Segment list \<Rightarrow> App \<Rightarrow> App" where
  "handleAudioUpload_settle imgs outcome prev =
     (case outcome of
        Inr segments_new \<Rightarrow>
          (let segmentsWithImages = matchImagesToSegments segments_new imgs
           in prev\<lparr>project := (project prev)\<lparr>segments := segmentsWithImages\<rparr>,
                   processing := \<lparr>status = ready, message = ''Analysis complete.''\<rparr>\<rparr>)
      | Inl err_message \<Rightarrow>
          prev\<lparr>processing := \<lparr>status = error,
                 message = (if err_message = [] then ''Analysis failed.'' else err_message)\<rparr>\<rparr>)"

section \<open>App.tsx: image upload\<close>

text \<open>
  What the environment supplies for one file of the input's file list: the file,
  the value of \<open>Date.now()\<close>, the string
  \<open>Math.random().toString(36).substr(2, 9)\<close> and the result of
  \<open>URL.createObjectURL\<close>.
\<close>

record Picked =
  picked_file :: File
  now :: nat
  random36 :: string
  objectURL :: string

definition newImage :: "Picked \<Rightarrow> UploadedImage" where
  "newImage p =
     \<lparr>id_Image = ''img-'' @ string_of_nat (now p) @ ''-'' @ random36 p,
      file_Image = picked_file p,
      url = objectURL p,
      name = name_File (picked_file p)\<rparr>"

text \<open>\<open>!seg.assignedImageId\<close>: true for \<open>undefined\<close> and for the empty string.\<close>

definition falsy :: "string option \<Rightarrow> bool" where
  "falsy v = (case v of None \<Rightarrow> True | Some s \<Rightarrow> s = [])"

text \<open>
  The callback of \<open>project.segments.map\<close>. With an empty \<open>updated\<close> the index
  \<open>i % 0\<close> is \<open>NaN\<close>, \<open>updated[NaN]\<close> is \<open>undefined\<close>, and reading \<open>.id\<close> of it
  throws a \<open>TypeError\<close>.
\<close>

definition autoAssign :: "UploadedImage list \<Rightarrow> nat \<times> Segment \<Rightarrow> js_error + Segment" where
  "autoAssign updated = (\<lambda>(i, seg).
     if falsy (assignedImageId seg)
     then (if length updated = 0 then Inl TypeError
           else Inr (seg\<lparr>assignedImageId := Some (id_Image (updated ! (i mod length updated)))\<rparr>))
     else Inr seg)"

definition handleImageUpload :: "Picked list option \<Rightarrow> App \<Rightarrow> js_error + App" where
  "handleImageUpload files st =
     (case files of
        None \<Rightarrow> Inr st
      | Some fs \<Rightarrow>
          (let newImages = map newImage fs;
               updated = images st @ newImages
           in if length (segs st) > 0
              then (case mapM_sum (autoAssign updated) (enumerate 0 (segs st)) of
                      Inl e \<Rightarrow> Inl e
                    | Inr updatedSegments \<Rightarrow>
                        Inr (st\<lparr>project := (project st)\<lparr>segments := updatedSegments\<rparr>,
                                images := updated\<rparr>))
              else Inr (st\<lparr>images := updated\<rparr>)))"

section \<open>App.tsx: manual assignment and the active segment\<close>

definition assignImageToSegment :: "string \<Rightarrow> string \<Rightarrow> App \<Rightarrow> App" where
  "assignImageToSegment segmentId imageId prev =
     prev\<lparr>project := (project prev)\<lparr>segments :=
       map (\<lambda>seg. if id_Segment seg = segmentId
                  then seg\<lparr>assignedImageId := Some imageId\<rparr> else seg)
           (segments (project prev))\<rparr>\<rparr>"

definition currentSegment :: "App \<Rightarrow> Segment option" where
  "currentSegment st =
     find (\<lambda>seg. currentTime st \<ge> startTime seg \<and> currentTime st < endTime seg) (segs st)"

section \<open>Timeline.tsx\<close>

text \<open>
  \<open>handleDrop\<close>: \<open>imageId\<close> is what \<open>getData('imageId')\<close> returns (the empty string
  when the drag carries none); \<open>onAssignImage\<close> is the component's prop.
\<close>

definition handleDrop :: "string \<Rightarrow> string \<Rightarrow> (string \<Rightarrow> string \<Rightarrow> 's \<Rightarrow> 's) \<Rightarrow> 's \<Rightarrow> 's" where
  "handleDrop segmentId imageId onAssignImage st =
     (if imageId \<noteq> [] then onAssignImage segmentId imageId st else st)"

text \<open>
  The arithmetic of the click handler is that of JavaScript numbers: IEEE 754
  binary64 values. \<open>Num r\<close> is the finite value \<open>r\<close>; the result of every
  operation is the exact result rounded to the nearest representable value, ties
  to the even significand, and an infinity beyond the largest finite value. The
  sign of zero is not modelled: a zero divisor is the positive zero that a
  rendered width can be.
\<close>

datatype number = NaN | NegInf | Num real | PosInf

definition round_half_even :: "real \<Rightarrow> int" where
  "round_half_even y =
     (let f = \<lfloor>y\<rfloor>
      in if y - of_int f < 1 / 2 then f
         else if 1 / 2 < y - of_int f then f + 1
         else if even f then f else f + 1)"

text \<open>
  A positive \<open>a * 2 ^ e\<close> is brought to a significand in \<open>[2 ^ 52, 2 ^ 53)\<close>, or
  to the least exponent \<open>- 1074\<close> of the subnormal values.
\<close>

function scale_up :: "real \<Rightarrow> int \<Rightarrow> real \<times> int" where
  "scale_up a e = (if a < 2 ^ 52 \<and> - 1074 < e then scale_up (a * 2) (e - 1) else (a, e))"
  by pat_completeness auto
termination
  by (relation "measure (\<lambda>(a, e). nat (e + 1074))") auto

function scale_down :: "real \<Rightarrow> int \<Rightarrow> real \<times> int" where
  "scale_down a e = (if 2 ^ 53 \<le> a then scale_down (a / 2) (e + 1) else (a, e))"
  by pat_completeness auto
termination
proof (relation "measure (\<lambda>(a, e). nat \<lfloor>a\<rfloor>)")
  show "wf (measure (\<lambda>(a, e). nat \<lfloor>a\<rfloor>))" by simp
next
  fix a :: real and e :: int
  assume a: "2 ^ 53 \<le> a"
  have "of_int \<lfloor>a / 2\<rfloor> \<le> a / 2" by (rule of_int_floor_le)
  moreover have "a / 2 \<le> a - 1" using a by simp
  moreover have "a - 1 < of_int \<lfloor>a\<rfloor>" by linarith
  ultimately have "(of_int \<lfloor>a / 2\<rfloor> :: real) < of_int \<lfloor>a\<rfloor>" by linarith
  then have "\<lfloor>a / 2\<rfloor> < \<lfloor>a\<rfloor>" by (simp only: of_int_less_iff)
  moreover have "0 < \<lfloor>a\<rfloor>" using a by (simp add: less_le_trans [of 0 "2 ^ 53" a])
  ultimately show "((a / 2, e + 1), (a, e)) \<in> measure (\<lambda>(a, e). nat \<lfloor>a\<rfloor>)"
    by simp
qed

declare scale_up.simps [simp del] scale_down.simps [simp del]

definition pow2 :: "int \<Rightarrow> real" where
  "pow2 e = (if 0 \<le> e then 2 ^ nat e else 1 / 2 ^ nat (- e))"

definition fl_pos :: "real \<Rightarrow> number" where
  "fl_pos a =
     (case scale_up a 0 of (b, e1) \<Rightarrow>
      (case scale_down b e1 of (c, e) \<Rightarrow>
        (let r = of_int (round_half_even c) * pow2 e
         in if 2 ^ 1024 \<le> r then PosInf else Num r)))"

definition negate :: "number \<Rightarrow> number" where
  "negate v = (case v of NaN \<Rightarrow> NaN | NegInf \<Rightarrow> PosInf | Num r \<Rightarrow> Num (- r) | PosInf \<Rightarrow> NegInf)"

text \<open>\<open>fl x\<close>: the binary64 value nearest to the real \<open>x\<close>.\<close>

definition fl :: "real \<Rightarrow> number" where
  "fl x = (if x = 0 then Num 0 else if 0 < x then fl_pos x else negate (fl_pos (- x)))"

text \<open>
  \<open>e.clientX - rect.left\<close>, of two finite values; \<open>x / rect.width\<close>, by a finite
  width; \<open>percentage * duration\<close>, of any two numbers.
\<close>

definition minus_number :: "real \<Rightarrow> real \<Rightarrow> number" where
  "minus_number a b = fl (a - b)"

definition divide_number :: "number \<Rightarrow> real \<Rightarrow> number" where
  "divide_number x w =
     (case x of
        NaN \<Rightarrow> NaN
      | PosInf \<Rightarrow> (if w < 0 then NegInf else PosInf)
      | NegInf \<Rightarrow> (if w < 0 then PosInf else NegInf)
      | Num a \<Rightarrow>
          (if w = 0 then (if 0 < a then PosInf else if a < 0 then NegInf else NaN)
           else fl (a / w)))"

fun times_number :: "number \<Rightarrow> number \<Rightarrow> number" where
  "times_number NaN q = NaN"
| "times_number p NaN = NaN"
| "times_number (Num a) (Num b) = fl (a * b)"
| "times_number (Num a) PosInf = (if 0 < a then PosInf else if a < 0 then NegInf else NaN)"
| "times_number (Num a) NegInf = (if 0 < a then NegInf else if a < 0 then PosInf else NaN)"
| "times_number PosInf (Num b) = (if 0 < b then PosInf else if b < 0 then NegInf else NaN)"
| "times_number NegInf (Num b) = (if 0 < b then NegInf else if b < 0 then PosInf else NaN)"
| "times_number PosInf PosInf = PosInf"
| "times_number PosInf NegInf = NegInf"
| "times_number NegInf PosInf = NegInf"
| "times_number NegInf NegInf = PosInf"

fun Math_min :: "number \<Rightarrow> number \<Rightarrow> number" where
  "Math_min NaN b = NaN"
| "Math_min a NaN = NaN"
| "Math_min NegInf b = NegInf"
| "Math_min a NegInf = NegInf"
| "Math_min PosInf b = b"
| "Math_min a PosInf = a"
| "Math_min (Num a) (Num b) = Num (min a b)"

fun Math_max :: "number \<Rightarrow> number \<Rightarrow> number" where
  "Math_max NaN b = NaN"
| "Math_max a NaN = NaN"
| "Math_max PosInf b = PosInf"
| "Math_max a PosInf = PosInf"
| "Math_max NegInf b = b"
| "Math_max a NegInf = a"
| "Math_max (Num a) (Num b) = Num (max a b)"

record DOMRect =
  left :: real
  width :: real

text \<open>
  \<open>handleTimelineClick\<close>: \<open>containerRef\<close> is the bounding rectangle of the element
  the ref is attached to, the scrollable container around the track (\<open>None\<close>
  while the ref is not attached); \<open>dur\<close> is the \<open>duration\<close> prop, which may be
  any number; \<open>onSeek\<close> is the component's prop, a state transformer. A handler
  that returns early leaves the state as it is.
\<close>

definition handleTimelineClick ::
    "DOMRect option \<Rightarrow> number \<Rightarrow> real \<Rightarrow> (number \<Rightarrow> 's \<Rightarrow> 's) \<Rightarrow> 's \<Rightarrow> 's" where
  "handleTimelineClick containerRef dur clientX onSeek st =
     (case containerRef of
        None \<Rightarrow> st
      | Some rect \<Rightarrow>
          if dur = Num 0 then st
          else (let x = minus_number clientX (left rect);
                    percentage = Math_max (Num 0) (Math_min (Num 1) (divide_number x (width rect)))
                in onSeek (times_number percentage dur) st))"

text \<open>
  The track inside the container: its width, and where the playhead stands on
  it (\<open>left: currentTime * PIXELS_PER_SECOND\<close>, in pixels from the track's left
  edge).
\<close>

definition PIXELS_PER_SECOND :: number where
  "PIXELS_PER_SECOND = Num 50"

definition totalWidth :: "number \<Rightarrow> number" where
  "totalWidth dur = Math_max (times_number dur PIXELS_PER_SECOND) (Num 800)"

definition playheadLeft :: "number \<Rightarrow> number" where
  "playheadLeft t = times_number t PIXELS_PER_SECOND"

text \<open>
  Layout: the track is the only child of the scrollable container and the click
  layer covers the track, so the left edge of the track is at the container's
  left edge minus the scroll offset, and a click at \<open>p\<close> pixels from the track's
  left edge has this \<open>clientX\<close>.
\<close>

definition clientX_on_track :: "DOMRect \<Rightarrow> real \<Rightarrow> real \<Rightarrow> real" where
  "clientX_on_track container scrollLeft p = left container - scrollLeft + p"

section \<open>The component as an event-driven machine\<close>

text \<open>
  Besides the \<open>App\<close> state the machine holds the audio uploads whose handler is
  suspended at an \<open>await\<close>: for each, the \<open>images\<close> of the render it started in
  and whether its metadata has loaded (the analysis call is made only then). An
  event that is not enabled, or whose handler throws, has no successor.
\<close>

record Sys =
  app :: App
  inflight :: "(UploadedImage list \<times> bool) list"

datatype Event =
    AudioPicked "File option" string
  | MetadataLoaded nat real
  | AnalysisSettled nat "nat \<Rightarrow> nat" "RawItem list option"
  | ImagesPicked "Picked list option"
  | Dropped string string
  | TimeChanged real

definition initialSys :: Sys where
  "initialSys = \<lparr>app = initialApp, inflight = []\<rparr>"

fun fire :: "Event \<Rightarrow> Sys \<Rightarrow> Sys option" where
  "fire (AudioPicked None objectUrl) s = Some s"
| "fire (AudioPicked (Some f) objectUrl) s =
     Some (s\<lparr>app := handleAudioUpload_begin f objectUrl (app s),
             inflight := inflight s @ [(images (app s), False)]\<rparr>)"
| "fire (MetadataLoaded k d) s =
     (if k < length (inflight s) \<and> \<not> snd (inflight s ! k)
      then Some (s\<lparr>app := onloadedmetadata d (app s),
                   inflight := (inflight s)[k := (fst (inflight s ! k), True)]\<rparr>)
      else None)"
| "fire (AnalysisSettled k clock response) s =
     (if k < length (inflight s) \<and> snd (inflight s ! k)
      then Some (s\<lparr>app := handleAudioUpload_settle (fst (inflight s ! k))
                             (analyzeAudioAndSegment clock response) (app s),
                   inflight := take k (inflight s) @ drop (Suc k) (inflight s)\<rparr>)
      else None)"
| "fire (ImagesPicked files) s =
     (case handleImageUpload files (app s) of
        Inl e \<Rightarrow> None
      | Inr app' \<Rightarrow> Some (s\<lparr>app := app'\<rparr>))"
| "fire (Dropped segmentId imageId) s =
     Some (s\<lparr>app := handleDrop segmentId imageId assignImageToSegment (app s)\<rparr>)"
| "fire (TimeChanged t) s = Some (s\<lparr>app := (app s)\<lparr>currentTime := t\<rparr>\<rparr>)"

fun run :: "Event list \<Rightarrow> Sys \<Rightarrow> Sys option" where
  "run [] s = Some s"
| "run (e # es) s = (case fire e s of None \<Rightarrow> None | Some s' \<Rightarrow> run es s')"

definition reachable :: "Sys \<Rightarrow> bool" where
  "reachable s = (\<exists>es. run es initialSys = Some s)"

text \<open>The events that store a new segment list: an analysis that resolves.\<close>

fun installs_segments :: "Event \<Rightarrow> bool" where
  "installs_segments (AnalysisSettled k clock (Some rawData)) = True"
| "installs_segments e = False"

section \<open>The specification's notions\<close>

text \<open>
  The interval test of the specification, \<open>startTime \<le> currentTime < endTime\<close>;
  two segments overlap when some time lies in both intervals; a list is sorted
  when the start times do not decrease.
\<close>

definition active :: "Segment \<Rightarrow> real \<Rightarrow> bool" where
  "active seg t = (startTime seg \<le> t \<and> t < endTime seg)"

definition overlap :: "Segment \<Rightarrow> Segment \<Rightarrow> bool" where
  "overlap a b = (max (startTime a) (startTime b) < min (endTime a) (endTime b))"

definition non_overlapping :: "Segment list \<Rightarrow> bool" where
  "non_overlapping xs = sorted_wrt (\<lambda>a b. \<not> overlap a b) xs"

definition sorted_by_start :: "Segment list \<Rightarrow> bool" where
  "sorted_by_start xs = sorted (map startTime xs)"

definition clamp :: "real \<Rightarrow> real \<Rightarrow> real \<Rightarrow> real" where
  "clamp v lo hi = (if v < lo then lo else if hi < v then hi else v)"


section \<open>Example data\<close>

text \<open>Three contiguous segments as the analysis produces them, and a state holding them.\<close>

definition exampleSegments :: "Segment list" where
  "exampleSegments =
     [\<lparr>id_Segment = ''seg-0-7'', startTime = 0, endTime = 6, text_Segment = ''a'',
       visualPrompt = ''sunrise'', emotion = ''Happy'', assignedImageId = None\<rparr>,
      \<lparr>id_Segment = ''seg-1-7'', startTime = 6, endTime = 12, text_Segment = ''b'',
       visualPrompt = ''storm'', emotion = ''Intense'', assignedImageId = None\<rparr>,
      \<lparr>id_Segment = ''seg-2-7'', startTime = 12, endTime = 18, text_Segment = ''c'',
       visualPrompt = ''harbour'', emotion = ''Informative'', assignedImageId = None\<rparr>]"

definition exampleApp :: App where
  "exampleApp =
     \<lparr>project = \<lparr>audioFile = Some \<lparr>name_File = ''talk.mp3'', type_File = ''audio/mpeg''\<rparr>,
                 audioUrl = Some ''blob:talk'', duration = 18, segments = exampleSegments\<rparr>,
      images = [],
      processing = \<lparr>status = ready, message = ''Analysis complete.''\<rparr>,
      currentTime = 7\<rparr>"

text \<open>
  The service response that yields these segments when every clock reading is 7,
  two picked image files of one upload in one millisecond, and two picked files
  for which clock and random string coincide.
\<close>

definition exampleRaw :: "RawItem list" where
  "exampleRaw =
     [\<lparr>start_time = 0, end_time = 6, text_Item = ''a'', visual_description = ''sunrise'',
       emotion_Item = ''Happy''\<rparr>,
      \<lparr>start_time = 6, end_time = 12, text_Item = ''b'', visual_description = ''storm'',
       emotion_Item = ''Intense''\<rparr>,
      \<lparr>start_time = 12, end_time = 18, text_Item = ''c'', visual_description = ''harbour'',
       emotion_Item = ''Informative''\<rparr>]"

definition pictureA :: Picked where
  "pictureA = \<lparr>picked_file = \<lparr>name_File = ''a.png'', type_File = ''image/png''\<rparr>,
               now = 5, random36 = ''abc'', objectURL = ''blob:a''\<rparr>"

definition pictureB :: Picked where
  "pictureB = \<lparr>picked_file = \<lparr>name_File = ''b.png'', type_File = ''image/png''\<rparr>,
               now = 5, random36 = ''abd'', objectURL = ''blob:b''\<rparr>"

definition collidingB :: Picked where
  "collidingB = \<lparr>picked_file = \<lparr>name_File = ''b.png'', type_File = ''image/png''\<rparr>,
                 now = 5, random36 = ''abc'', objectURL = ''blob:b''\<rparr>"

definition talk :: File where
  "talk = \<lparr>name_File = ''talk.mp3'', type_File = ''audio/mpeg''\<rparr>"

text \<open>The gallery after both colliding files were uploaded to the initial state.\<close>

definition collidedApp :: App where
  "collidedApp = initialApp\<lparr>images := [newImage pictureA, newImage collidingB]\<rparr>"

text \<open>
  A run of the machine: an audio upload whose analysis succeeds with an empty
  gallery, then a drop of an image id onto the second segment.
\<close>

definition exampleEvents :: "Event list" where
  "exampleEvents =
     [AudioPicked (Some talk) ''blob:talk'', MetadataLoaded 0 18,
      AnalysisSettled 0 (\<lambda>index. 7) (Some exampleRaw), TimeChanged 7,
      Dropped ''seg-1-7'' ''img-3-xyz'']"

definition exampleSys :: Sys where
  "exampleSys = \<lparr>app = assignImageToSegment ''seg-1-7'' ''img-3-xyz'' exampleApp, inflight = []\<rparr>"

text \<open>
  Two uploads in flight, of which the second has resolved with three segments:
  the events, and the state they lead to.
\<close>

definition twoUploads :: "Event list" where
  "twoUploads =
     [AudioPicked (Some talk) ''blob:talk'', AudioPicked (Some talk) ''blob:talk'',
      MetadataLoaded 0 18, MetadataLoaded 1 18,
      AnalysisSettled 1 (\<lambda>index. 7) (Some exampleRaw)]"

definition pendingSys :: Sys where
  "pendingSys = \<lparr>app = exampleApp\<lparr>currentTime := 0\<rparr>, inflight = [([], True)]\<rparr>"

section \<open>Invariants of the machine\<close>

text \<open>
  No stored assignment and no image id is the empty string: this is what every
  state the machine reaches satisfies.
\<close>

definition assigned_nonempty :: "Segment list \<Rightarrow> bool" where
  "assigned_nonempty xs = list_all (\<lambda>seg. assignedImageId seg \<noteq> Some []) xs"

definition ids_nonempty :: "UploadedImage list \<Rightarrow> bool" where
  "ids_nonempty imgs = list_all (\<lambda>img. id_Image img \<noteq> []) imgs"

definition sys_inv :: "Sys \<Rightarrow> bool" where
  "sys_inv s = (assigned_nonempty (segs (app s)) \<and> ids_nonempty (images (app s))
                \<and> list_all (\<lambda>p. ids_nonempty (fst p)) (inflight s))"

section \<open>The active segment\<close>

lemma find_first:
  "find P xs = Some x \<Longrightarrow> \<exists>i<length xs. xs ! i = x \<and> P x \<and> (\<forall>j<i. \<not> P (xs ! j))"
  by (auto simp: find_Some_iff)

lemma active_overlap: "active a t \<Longrightarrow> active b t \<Longrightarrow> overlap a b"
  by (auto simp: active_def overlap_def)

lemma overlap_iff: "overlap a b \<longleftrightarrow> (\<exists>t. active a t \<and> active b t)"
proof
  assume "overlap a b"
  then have "active a (max (startTime a) (startTime b)) \<and> active b (max (startTime a) (startTime b))"
    by (auto simp: overlap_def active_def)
  then show "\<exists>t. active a t \<and> active b t" ..
next
  assume "\<exists>t. active a t \<and> active b t"
  then show "overlap a b" using active_overlap by blast
qed

lemma non_overlapping_unique:
  assumes "non_overlapping xs" "i < length xs" "j < length xs"
    "active (xs ! i) t" "active (xs ! j) t"
  shows "i = j"
proof (rule ccontr)
  assume "i \<noteq> j"
  then consider "i < j" | "j < i" by linarith
  then show False
  proof cases
    case 1
    then have "\<not> overlap (xs ! i) (xs ! j)"
      using assms(1,3) by (simp add: non_overlapping_def sorted_wrt_iff_nth_less)
    then show False using active_overlap [OF assms(4,5)] by simp
  next
    case 2
    then have "\<not> overlap (xs ! j) (xs ! i)"
      using assms(1,2) by (simp add: non_overlapping_def sorted_wrt_iff_nth_less)
    then show False using active_overlap [OF assms(5,4)] by simp
  qed
qed

text \<open>
  C1. Whenever \<open>currentSegment\<close> returns a segment, it is the segment at the
  first position of the list whose interval contains \<open>currentTime\<close>
  (\<open>startTime \<le> currentTime < endTime\<close>); it returns \<open>None\<close>, a value and not a
  failure, exactly when no interval of the list contains \<open>currentTime\<close>; and in a
  sorted list without overlaps a position whose interval contains \<open>currentTime\<close>
  is the only such position, and its segment is the one returned.
\<close>

theorem C1_currentSegment:
  "(\<forall>s. currentSegment st = Some s \<longrightarrow>
      (\<exists>i<length (segs st). segs st ! i = s \<and> active s (currentTime st)
          \<and> (\<forall>j<i. \<not> active (segs st ! j) (currentTime st))))
   \<and> (currentSegment st = None \<longleftrightarrow> (\<forall>s \<in> set (segs st). \<not> active s (currentTime st)))
   \<and> (sorted_by_start (segs st) \<and> non_overlapping (segs st) \<longrightarrow>
        (\<forall>i<length (segs st). active (segs st ! i) (currentTime st) \<longrightarrow>
            currentSegment st = Some (segs st ! i)
          \<and> (\<forall>j<length (segs st). active (segs st ! j) (currentTime st) \<longrightarrow> j = i)))"
proof -
  let ?P = "\<lambda>seg. currentTime st \<ge> startTime seg \<and> currentTime st < endTime seg"
  have P: "?P seg = active seg (currentTime st)" for seg by (auto simp: active_def)
  have a: "\<forall>s. currentSegment st = Some s \<longrightarrow>
      (\<exists>i<length (segs st). segs st ! i = s \<and> active s (currentTime st)
          \<and> (\<forall>j<i. \<not> active (segs st ! j) (currentTime st)))"
    unfolding currentSegment_def P by (auto dest: find_first)
  have b: "currentSegment st = None \<longleftrightarrow> (\<forall>s \<in> set (segs st). \<not> active s (currentTime st))"
    unfolding currentSegment_def P by (auto simp: find_None_iff)
  have c: "currentSegment st = Some (segs st ! i)
          \<and> (\<forall>j<length (segs st). active (segs st ! j) (currentTime st) \<longrightarrow> j = i)"
    if no: "non_overlapping (segs st)" and i: "i < length (segs st)"
      and ai: "active (segs st ! i) (currentTime st)" for i
  proof -
    have u: "\<forall>j<length (segs st). active (segs st ! j) (currentTime st) \<longrightarrow> j = i"
      using non_overlapping_unique [OF no _ i _ ai] by blast
    have "currentSegment st \<noteq> None" using b i ai nth_mem by blast
    then obtain s where s: "currentSegment st = Some s" by blast
    with a obtain k where "k < length (segs st)" "segs st ! k = s" "active s (currentTime st)"
      by blast
    with u have "k = i" by blast
    with \<open>segs st ! k = s\<close> s show ?thesis using u by simp
  qed
  from a b c show ?thesis by blast
qed

theorem C1_currentSegment_witness:
  "sorted_by_start (segs exampleApp) \<and> non_overlapping (segs exampleApp)
   \<and> (1::nat) < length (segs exampleApp)
   \<and> active (segs exampleApp ! 1) (currentTime exampleApp)
   \<and> \<not> active (segs exampleApp ! 0) (currentTime exampleApp)
   \<and> \<not> active (segs exampleApp ! 2) (currentTime exampleApp)
   \<and> currentSegment exampleApp = Some (segs exampleApp ! 1)
   \<and> currentSegment (exampleApp\<lparr>currentTime := 18\<rparr>) = None"
  using C1_currentSegment [of exampleApp] C1_currentSegment [of "exampleApp\<lparr>currentTime := 18\<rparr>"]
  by (simp add: exampleApp_def exampleSegments_def sorted_by_start_def non_overlapping_def
      overlap_def active_def currentSegment_def)

section \<open>Manual assignment\<close>

lemma assign_length:
  "length (segs (assignImageToSegment sid iid st)) = length (segs st)"
  by (simp add: assignImageToSegment_def)

lemma assign_nth:
  assumes "i < length (segs st)"
  shows "segs (assignImageToSegment sid iid st) ! i =
         (if id_Segment (segs st ! i) = sid
          then (segs st ! i)\<lparr>assignedImageId := Some iid\<rparr>
          else segs st ! i)"
  using assms by (simp add: assignImageToSegment_def)

lemma assign_no_match:
  assumes "\<forall>seg \<in> set (segs st). id_Segment seg \<noteq> sid"
  shows "assignImageToSegment sid iid st = st"
proof -
  have "map (\<lambda>seg. if id_Segment seg = sid then seg\<lparr>assignedImageId := Some iid\<rparr> else seg)
            (segs st) = segs st"
    using assms by (intro map_idI) simp
  then show ?thesis by (simp add: assignImageToSegment_def)
qed

text \<open>
  C6. \<open>assignImageToSegment segmentId imageId\<close> keeps the number and order of
  the segments; at every position whose segment has id \<open>segmentId\<close> the field
  \<open>assignedImageId\<close> becomes \<open>imageId\<close> and the six other fields stay as they
  were; every other segment is unchanged; the gallery, the processing status and
  the playback position are unchanged; when no segment has id \<open>segmentId\<close> the
  whole state is unchanged. The function is total, and nothing in it depends on
  whether \<open>imageId\<close> names an image of the gallery.
\<close>

theorem C6_assignImage:
  "length (segs (assignImageToSegment segmentId imageId st)) = length (segs st)
   \<and> (\<forall>i < length (segs st). id_Segment (segs st ! i) = segmentId \<longrightarrow>
         segs (assignImageToSegment segmentId imageId st) ! i =
           (segs st ! i)\<lparr>assignedImageId := Some imageId\<rparr>
       \<and> assignedImageId (segs (assignImageToSegment segmentId imageId st) ! i) = Some imageId
       \<and> id_Segment (segs (assignImageToSegment segmentId imageId st) ! i) = id_Segment (segs st ! i)
       \<and> startTime (segs (assignImageToSegment segmentId imageId st) ! i) = startTime (segs st ! i)
       \<and> endTime (segs (assignImageToSegment segmentId imageId st) ! i) = endTime (segs st ! i)
       \<and> text_Segment (segs (assignImageToSegment segmentId imageId st) ! i) = text_Segment (segs st ! i)
       \<and> visualPrompt (segs (assignImageToSegment segmentId imageId st) ! i) = visualPrompt (segs st ! i)
       \<and> emotion (segs (assignImageToSegment segmentId imageId st) ! i) = emotion (segs st ! i))
   \<and> (\<forall>i < length (segs st). id_Segment (segs st ! i) \<noteq> segmentId \<longrightarrow>
         segs (assignImageToSegment segmentId imageId st) ! i = segs st ! i)
   \<and> images (assignImageToSegment segmentId imageId st) = images st
   \<and> processing (assignImageToSegment segmentId imageId st) = processing st
   \<and> currentTime (assignImageToSegment segmentId imageId st) = currentTime st
   \<and> ((\<forall>seg \<in> set (segs st). id_Segment seg \<noteq> segmentId) \<longrightarrow>
         assignImageToSegment segmentId imageId st = st)"
proof (intro conjI)
  show "length (segs (assignImageToSegment segmentId imageId st)) = length (segs st)"
    by (rule assign_length)
  show "\<forall>i < length (segs st). id_Segment (segs st ! i) \<noteq> segmentId \<longrightarrow>
         segs (assignImageToSegment segmentId imageId st) ! i = segs st ! i"
    by (simp add: assign_nth)
  show "images (assignImageToSegment segmentId imageId st) = images st"
    by (simp add: assignImageToSegment_def)
  show "processing (assignImageToSegment segmentId imageId st) = processing st"
    by (simp add: assignImageToSegment_def)
  show "currentTime (assignImageToSegment segmentId imageId st) = currentTime st"
    by (simp add: assignImageToSegment_def)
  show "(\<forall>seg \<in> set (segs st). id_Segment seg \<noteq> segmentId) \<longrightarrow>
         assignImageToSegment segmentId imageId st = st"
    using assign_no_match by blast
qed (simp add: assign_nth)

theorem C6_assignImage_witness:
  "(1::nat) < length (segs exampleApp) \<and> id_Segment (segs exampleApp ! 1) = ''seg-1-7''
   \<and> id_Segment (segs exampleApp ! 0) \<noteq> ''seg-1-7''
   \<and> map assignedImageId (segs (assignImageToSegment ''seg-1-7'' ''img-5-abc'' exampleApp))
       = [None, Some ''img-5-abc'', None]
   \<and> segs (assignImageToSegment ''seg-1-7'' ''img-5-abc'' exampleApp) ! 0 = segs exampleApp ! 0
   \<and> endTime (segs (assignImageToSegment ''seg-1-7'' ''img-5-abc'' exampleApp) ! 1) = 12
   \<and> map id_Segment (segs exampleApp) = [''seg-0-7'', ''seg-1-7'', ''seg-2-7'']
   \<and> assignImageToSegment ''seg-9-7'' ''img-5-abc'' exampleApp = exampleApp"
  using C6_assignImage [of "''seg-1-7''" "''img-5-abc''" exampleApp]
    C6_assignImage [of "''seg-9-7''" "''img-5-abc''" exampleApp]
  by (simp add: exampleApp_def exampleSegments_def assignImageToSegment_def)

text \<open>
  C7. Applying \<open>assignImageToSegment segId imgId\<close> twice gives the same state as
  applying it once.
\<close>

theorem C7_assignImage_idempotent:
  "assignImageToSegment segId imgId (assignImageToSegment segId imgId st) =
   assignImageToSegment segId imgId st"
proof -
  let ?f = "\<lambda>seg. if id_Segment seg = segId then seg\<lparr>assignedImageId := Some imgId\<rparr> else seg"
  have "?f (?f seg) = ?f seg" for seg by simp
  then have "map ?f (map ?f xs) = map ?f xs" for xs by (induction xs) auto
  then show ?thesis by (simp add: assignImageToSegment_def)
qed

section \<open>Maps with positions, and the example data evaluated\<close>

lemma mapi_length: "length (mapi f xs) = length xs"
  by (simp add: mapi_def)

lemma mapi_nth: "i < length xs \<Longrightarrow> mapi f xs ! i = f i (xs ! i)"
  by (simp add: mapi_def nth_enumerate_eq)

lemma mapM_sum_Inr:
  "mapM_sum f xs = Inr ys \<Longrightarrow>
     length ys = length xs \<and> (\<forall>i<length xs. f (xs ! i) = Inr (ys ! i))"
proof (induction xs arbitrary: ys)
  case Nil
  then show ?case by simp
next
  case (Cons x xs)
  from Cons.prems obtain y zs where y: "f x = Inr y" and zs: "mapM_sum f xs = Inr zs"
    and ys: "ys = y # zs"
    by (auto split: sum.splits)
  from Cons.IH [OF zs] have "length zs = length xs" "\<forall>i<length xs. f (xs ! i) = Inr (zs ! i)"
    by simp_all
  then show ?case using y ys by (auto simp: nth_Cons split: nat.split)
qed

lemma mapM_sum_total:
  "(\<forall>x \<in> set xs. \<exists>y. f x = Inr y) \<Longrightarrow> \<exists>ys. mapM_sum f xs = Inr ys"
  by (induction xs) (auto split: sum.splits)

lemma analyze_Some:
  "analyzeAudioAndSegment clock (Some rawData) = Inr fresh \<Longrightarrow>
     length fresh = length rawData
     \<and> (\<forall>i<length rawData. assignedImageId (fresh ! i) = None
           \<and> startTime (fresh ! i) = start_time (rawData ! i)
           \<and> endTime (fresh ! i) = end_time (rawData ! i))"
  by (auto simp: analyzeAudioAndSegment_def mapi_length mapi_nth)

lemma analyze_unassigned:
  "analyzeAudioAndSegment clock response = Inr fresh \<Longrightarrow> seg \<in> set fresh \<Longrightarrow>
     assignedImageId seg = None"
  by (auto simp: analyzeAudioAndSegment_def mapi_def split: option.splits)

lemma match_length: "length (matchImagesToSegments xs imgs) = length xs"
  by (simp add: matchImagesToSegments_def mapi_length)

lemma match_empty: "matchImagesToSegments xs [] = xs"
  by (simp add: matchImagesToSegments_def)

lemma match_nth:
  "imgs \<noteq> [] \<Longrightarrow> i < length xs \<Longrightarrow>
     matchImagesToSegments xs imgs ! i =
       (xs ! i)\<lparr>assignedImageId := Some (id_Image (imgs ! (i mod length imgs)))\<rparr>"
  by (simp add: matchImagesToSegments_def mapi_nth)

lemma string_of_nat_digit: "n < 10 \<Longrightarrow> string_of_nat n = [digit n]"
  by (subst string_of_nat.simps) simp

lemma example_analysis:
  "analyzeAudioAndSegment (\<lambda>index. 7) (Some exampleRaw) = Inr exampleSegments"
  by (simp add: analyzeAudioAndSegment_def mapi_def exampleRaw_def exampleSegments_def
      string_of_nat_digit digit_def)

lemma example_ids:
  "id_Image (newImage pictureA) = ''img-5-abc''" "id_Image (newImage pictureB) = ''img-5-abd''"
  "id_Image (newImage collidingB) = ''img-5-abc''"
  by (simp_all add: newImage_def pictureA_def pictureB_def collidingB_def string_of_nat_digit digit_def)

lemma example_run: "run exampleEvents initialSys = Some exampleSys"
  by (simp add: exampleEvents_def initialSys_def initialApp_def exampleSys_def exampleApp_def
      handleAudioUpload_begin_def onloadedmetadata_def handleAudioUpload_settle_def
      example_analysis matchImagesToSegments_def handleDrop_def assignImageToSegment_def talk_def)

section \<open>Auto-fill when the analysis completes\<close>

text \<open>
  What the settle step computes: the analysis of a parsed response always
  returns segments, one per item and in the items' order, and the settle step
  stores \<open>matchImagesToSegments\<close> of them and the gallery \<open>imgs\<close> it is given. With
  \<open>M = length imgs > 0\<close> the segment at position \<open>i\<close> is assigned the id of the image
  at position \<open>i mod M\<close> of \<open>imgs\<close>; with \<open>imgs\<close> empty every segment is unassigned.
\<close>

lemma round_robin_of_snapshot:
  "\<exists>fresh. analyzeAudioAndSegment clock (Some rawData) = Inr fresh
     \<and> segs (handleAudioUpload_settle imgs (Inr fresh) st) = matchImagesToSegments fresh imgs
     \<and> length (matchImagesToSegments fresh imgs) = length rawData
     \<and> (0 < length imgs \<longrightarrow>
          (\<forall>i<length rawData.
             assignedImageId (matchImagesToSegments fresh imgs ! i)
               = Some (id_Image (imgs ! (i mod length imgs)))))
     \<and> (length imgs = 0 \<longrightarrow>
          (\<forall>i<length rawData. assignedImageId (matchImagesToSegments fresh imgs ! i) = None))
     \<and> (\<forall>i<length rawData.
          startTime (matchImagesToSegments fresh imgs ! i) = start_time (rawData ! i)
        \<and> endTime (matchImagesToSegments fresh imgs ! i) = end_time (rawData ! i))"
proof -
  obtain fresh where f: "analyzeAudioAndSegment clock (Some rawData) = Inr fresh"
    by (simp add: analyzeAudioAndSegment_def)
  note a = analyze_Some [OF f]
  have 1: "segs (handleAudioUpload_settle imgs (Inr fresh) st) = matchImagesToSegments fresh imgs"
    by (simp add: handleAudioUpload_settle_def)
  have 2: "length (matchImagesToSegments fresh imgs) = length rawData"
    using a by (simp add: match_length)
  have 3: "\<forall>i<length rawData. assignedImageId (matchImagesToSegments fresh imgs ! i)
               = Some (id_Image (imgs ! (i mod length imgs)))" if "0 < length imgs"
    using that a by (simp add: match_nth)
  have 4: "\<forall>i<length rawData. assignedImageId (matchImagesToSegments fresh imgs ! i) = None"
    if "length imgs = 0"
    using that a by (simp add: match_empty)
  have 5: "\<forall>i<length rawData.
          startTime (matchImagesToSegments fresh imgs ! i) = start_time (rawData ! i)
        \<and> endTime (matchImagesToSegments fresh imgs ! i) = end_time (rawData ! i)"
    using a by (cases "imgs = []") (simp_all add: match_empty match_nth)
  from f 1 2 3 4 5 show ?thesis by blast
qed

text \<open>
  In the machine the gallery given to the settle step is the snapshot taken when
  the upload started: the \<open>images\<close> of the render in which \<open>handleAudioUpload\<close> was
  called. It is the gallery of the state at completion only if no image was added
  in between.
\<close>

lemma settle_uses_snapshot:
  assumes "fire (AudioPicked (Some f) objectUrl) s = Some s1"
  shows "inflight s1 = inflight s @ [(images (app s), False)]"
  using assms by auto

lemma settle_round_robin:
  assumes "fire (AnalysisSettled k clock (Some rawData)) s = Some s'"
  shows "\<exists>fresh. analyzeAudioAndSegment clock (Some rawData) = Inr fresh
           \<and> segs (app s') = matchImagesToSegments fresh (fst (inflight s ! k))"
proof -
  obtain fresh where f: "analyzeAudioAndSegment clock (Some rawData) = Inr fresh"
    by (simp add: analyzeAudioAndSegment_def)
  from assms have "app s' = handleAudioUpload_settle (fst (inflight s ! k))
                             (analyzeAudioAndSegment clock (Some rawData)) (app s)"
    by (auto split: if_splits)
  with f show ?thesis by (simp add: handleAudioUpload_settle_def)
qed

text \<open>
  C4 fails on the code when an image is added while the analysis call is
  pending. First run: the audio is picked with an empty gallery, one image is
  added, the analysis resolves with three segments; the gallery holds one image
  (\<open>M = 1\<close>) when the analysis completes, and all three segments are unassigned,
  where the claim assigns each the image at position \<open>i mod 1\<close>. Second run: the
  gallery holds one image when the audio is picked and a second is added before
  the analysis resolves; \<open>M = 2\<close> at completion, and the segment at position 1
  is assigned the image at position 0, where the claim assigns it the image at
  position \<open>1 mod 2\<close>.
\<close>

theorem C4_images_added_in_flight:
  "map_option (\<lambda>s. (map assignedImageId (segs (app s)), map id_Image (images (app s))))
     (run [AudioPicked (Some talk) ''blob:talk'', ImagesPicked (Some [pictureA]),
           MetadataLoaded 0 18, AnalysisSettled 0 (\<lambda>index. 7) (Some exampleRaw)] initialSys)
     = Some ([None, None, None], [''img-5-abc''])
   \<and> map_option (\<lambda>s. (map assignedImageId (segs (app s)), map id_Image (images (app s))))
     (run [ImagesPicked (Some [pictureA]), AudioPicked (Some talk) ''blob:talk'',
           MetadataLoaded 0 18, ImagesPicked (Some [pictureB]),
           AnalysisSettled 0 (\<lambda>index. 7) (Some exampleRaw)] initialSys)
     = Some ([Some ''img-5-abc'', Some ''img-5-abc'', Some ''img-5-abc''],
             [''img-5-abc'', ''img-5-abd''])"
proof -
  have a: "map_option (\<lambda>s. (map assignedImageId (segs (app s)), map id_Image (images (app s))))
     (run [AudioPicked (Some talk) ''blob:talk'', ImagesPicked (Some [pictureA]),
           MetadataLoaded 0 18, AnalysisSettled 0 (\<lambda>index. 7) (Some exampleRaw)] initialSys)
     = Some ([None, None, None], [''img-5-abc''])"
    by (simp add: initialSys_def initialApp_def handleAudioUpload_begin_def handleImageUpload_def
        onloadedmetadata_def handleAudioUpload_settle_def example_analysis example_ids
        matchImagesToSegments_def exampleSegments_def)
  have b: "map_option (\<lambda>s. (map assignedImageId (segs (app s)), map id_Image (images (app s))))
     (run [ImagesPicked (Some [pictureA]), AudioPicked (Some talk) ''blob:talk'',
           MetadataLoaded 0 18, ImagesPicked (Some [pictureB]),
           AnalysisSettled 0 (\<lambda>index. 7) (Some exampleRaw)] initialSys)
     = Some ([Some ''img-5-abc'', Some ''img-5-abc'', Some ''img-5-abc''],
             [''img-5-abc'', ''img-5-abd''])"
    by (simp add: initialSys_def initialApp_def handleAudioUpload_begin_def handleImageUpload_def
        onloadedmetadata_def handleAudioUpload_settle_def example_analysis example_ids
        matchImagesToSegments_def mapi_def exampleSegments_def)
  from a b show ?thesis by simp
qed

section \<open>Auto-fill when images are added\<close>

lemma autoAssign_cases:
  "autoAssign updated (i, seg) = Inr seg' \<Longrightarrow>
     (falsy (assignedImageId seg) \<longrightarrow> updated \<noteq> [] \<and>
        seg' = seg\<lparr>assignedImageId := Some (id_Image (updated ! (i mod length updated)))\<rparr>)
   \<and> (\<not> falsy (assignedImageId seg) \<longrightarrow> seg' = seg)"
  by (auto simp: autoAssign_def split: if_splits)

lemma upload_None: "handleImageUpload None st = Inr st"
  by (simp add: handleImageUpload_def)

lemma upload_Inr:
  assumes "handleImageUpload (Some fs) st = Inr st'"
  shows "images st' = images st @ map newImage fs"
    and "length (segs st') = length (segs st)"
    and "\<forall>i<length (segs st). autoAssign (images st') (i, segs st ! i) = Inr (segs st' ! i)"
    and "processing st' = processing st" and "currentTime st' = currentTime st"
proof -
  let ?u = "images st @ map newImage fs"
  show "images st' = ?u" "processing st' = processing st" "currentTime st' = currentTime st"
    using assms by (auto simp: handleImageUpload_def Let_def split: if_splits sum.splits)
  then have u: "images st' = ?u" by simp
  show "length (segs st') = length (segs st)"
    using assms
    by (auto simp: handleImageUpload_def Let_def split: if_splits sum.splits dest: mapM_sum_Inr)
  show "\<forall>i<length (segs st). autoAssign (images st') (i, segs st ! i) = Inr (segs st' ! i)"
  proof (cases "segs st = []")
    case True
    then show ?thesis by simp
  next
    case False
    with assms obtain ys where ys: "mapM_sum (autoAssign ?u) (enumerate 0 (segs st)) = Inr ys"
      and st': "segs st' = ys"
      by (auto simp: handleImageUpload_def Let_def split: if_splits sum.splits)
    from mapM_sum_Inr [OF ys] show ?thesis
      unfolding u st' by (simp add: nth_enumerate_eq)
  qed
qed

lemma upload_total:
  assumes "images st @ map newImage fs \<noteq> []"
  shows "\<exists>st'. handleImageUpload (Some fs) st = Inr st'"
proof -
  let ?u = "images st @ map newImage fs"
  have "\<forall>x \<in> set (enumerate 0 (segs st)). \<exists>y. autoAssign ?u x = Inr y"
    using assms by (auto simp: autoAssign_def)
  from mapM_sum_total [OF this] obtain ys
    where "mapM_sum (autoAssign ?u) (enumerate 0 (segs st)) = Inr ys" by blast
  then show ?thesis by (simp add: handleImageUpload_def Let_def)
qed

text \<open>
  C5. Adding at least one image never throws; the gallery becomes the old
  gallery followed by the new images; the number of segments is unchanged; and
  every segment at a position \<open>i\<close> that had no \<open>assignedImageId\<close> is the same
  segment with \<open>assignedImageId\<close> set to the id of the image at position
  \<open>i mod L\<close> of the updated gallery, \<open>L\<close> being the length of the updated
  gallery. The example: three unassigned segments and a gallery growing from
  none to two images give the images at positions 0, 1, 0.
\<close>

theorem C5_images_added:
  "fs \<noteq> [] \<longrightarrow>
     (\<exists>st'. handleImageUpload (Some fs) st = Inr st'
        \<and> images st' = images st @ map newImage fs
        \<and> length (segs st') = length (segs st)
        \<and> (\<forall>i<length (segs st). assignedImageId (segs st ! i) = None \<longrightarrow>
              segs st' ! i = (segs st ! i)\<lparr>assignedImageId :=
                 Some (id_Image (images st' ! (i mod length (images st'))))\<rparr>))"
proof
  assume fs: "fs \<noteq> []"
  then obtain st' where st': "handleImageUpload (Some fs) st = Inr st'"
    using upload_total [of st fs] by auto
  note u = upload_Inr [OF st']
  have "segs st' ! i = (segs st ! i)\<lparr>assignedImageId :=
                 Some (id_Image (images st' ! (i mod length (images st'))))\<rparr>"
    if "i < length (segs st)" "assignedImageId (segs st ! i) = None" for i
  proof -
    from u(3) that(1) have "autoAssign (images st') (i, segs st ! i) = Inr (segs st' ! i)" by blast
    from autoAssign_cases [OF this] that(2) show ?thesis by (simp add: falsy_def)
  qed
  with st' u(1,2) show "\<exists>st'. handleImageUpload (Some fs) st = Inr st'
        \<and> images st' = images st @ map newImage fs
        \<and> length (segs st') = length (segs st)
        \<and> (\<forall>i<length (segs st). assignedImageId (segs st ! i) = None \<longrightarrow>
              segs st' ! i = (segs st ! i)\<lparr>assignedImageId :=
                 Some (id_Image (images st' ! (i mod length (images st'))))\<rparr>)"
    by blast
qed

theorem C5_images_added_witness:
  "[pictureA, pictureB] \<noteq> []
   \<and> map assignedImageId (segs exampleApp) = [None, None, None]
   \<and> images exampleApp = []
   \<and> map id_Image (images (projr (handleImageUpload (Some [pictureA, pictureB]) exampleApp)))
       = [''img-5-abc'', ''img-5-abd'']
   \<and> map assignedImageId (segs (projr (handleImageUpload (Some [pictureA, pictureB]) exampleApp)))
       = [Some ''img-5-abc'', Some ''img-5-abd'', Some ''img-5-abc'']"
  using C5_images_added [of "[pictureA, pictureB]" exampleApp]
  by (simp add: handleImageUpload_def autoAssign_def falsy_def example_ids exampleApp_def
      exampleSegments_def)

section \<open>Image ids\<close>

lemma digit_inj: "a < 10 \<Longrightarrow> b < 10 \<Longrightarrow> digit a = digit b \<Longrightarrow> a = b"
  unfolding digit_def by (auto split: if_splits; arith)

lemma digit_not_dash: "digit d \<noteq> CHR ''-''"
  unfolding digit_def by simp

lemma string_of_nat_nonempty: "string_of_nat n \<noteq> []"
  by (subst string_of_nat.simps) simp

lemma string_of_nat_no_dash: "CHR ''-'' \<notin> set (string_of_nat n)"
proof (induction n rule: string_of_nat.induct)
  case (1 n)
  show ?case
  proof (cases "n < 10")
    case True
    then show ?thesis using digit_not_dash [of n] by (subst string_of_nat.simps) auto
  next
    case False
    then show ?thesis using 1 digit_not_dash [of "n mod 10"]
      by (subst string_of_nat.simps) auto
  qed
qed

lemma string_of_nat_inj: "string_of_nat n = string_of_nat m \<Longrightarrow> n = m"
proof (induction n arbitrary: m rule: string_of_nat.induct)
  case (1 n)
  show ?case
  proof (cases "n < 10")
    case n: True
    then have en: "string_of_nat n = [digit n]" by (subst string_of_nat.simps) simp
    show ?thesis
    proof (cases "m < 10")
      case True
      then have "string_of_nat m = [digit m]" by (subst string_of_nat.simps) simp
      with en 1(2) have "digit n = digit m" by simp
      with n True show ?thesis by (rule digit_inj)
    next
      case False
      then have "string_of_nat m = string_of_nat (m div 10) @ [digit (m mod 10)]"
        by (subst string_of_nat.simps) simp
      with en 1(2) have "string_of_nat (m div 10) = []" by simp
      then show ?thesis using string_of_nat_nonempty by blast
    qed
  next
    case n: False
    then have en: "string_of_nat n = string_of_nat (n div 10) @ [digit (n mod 10)]"
      by (subst string_of_nat.simps) simp
    show ?thesis
    proof (cases "m < 10")
      case True
      then have "string_of_nat m = [digit m]" by (subst string_of_nat.simps) simp
      with en 1(2) have "string_of_nat (n div 10) = []" by simp
      then show ?thesis using string_of_nat_nonempty by blast
    next
      case False
      then have em: "string_of_nat m = string_of_nat (m div 10) @ [digit (m mod 10)]"
        by (subst string_of_nat.simps) simp
      from en em 1(2) have a: "string_of_nat (n div 10) = string_of_nat (m div 10)"
        and b: "digit (n mod 10) = digit (m mod 10)" by auto
      from 1(1) [OF n a] have "n div 10 = m div 10" .
      moreover from b have "n mod 10 = m mod 10" by (intro digit_inj) auto
      ultimately show ?thesis by (metis div_mult_mod_eq)
    qed
  qed
qed

lemma dash_split:
  assumes "CHR ''-'' \<notin> set a" "CHR ''-'' \<notin> set b" "a @ CHR ''-'' # s = b @ CHR ''-'' # t"
  shows "a = b \<and> s = t"
proof -
  have "takeWhile (\<lambda>c. c \<noteq> CHR ''-'') (a @ CHR ''-'' # s) = a"
    using assms(1) by (auto simp: takeWhile_tail)
  moreover have "takeWhile (\<lambda>c. c \<noteq> CHR ''-'') (b @ CHR ''-'' # t) = b"
    using assms(2) by (auto simp: takeWhile_tail)
  ultimately have "a = b" using assms(3) by simp
  then show ?thesis using assms(3) by simp
qed

lemma image_id_inj:
  "id_Image (newImage p) = id_Image (newImage q) \<longleftrightarrow> now p = now q \<and> random36 p = random36 q"
proof
  assume "id_Image (newImage p) = id_Image (newImage q)"
  then have "string_of_nat (now p) @ CHR ''-'' # random36 p = string_of_nat (now q) @ CHR ''-'' # random36 q"
    by (simp add: newImage_def)
  then have "string_of_nat (now p) = string_of_nat (now q) \<and> random36 p = random36 q"
    by (intro dash_split string_of_nat_no_dash)
  then show "now p = now q \<and> random36 p = random36 q" using string_of_nat_inj by blast
next
  assume "now p = now q \<and> random36 p = random36 q"
  then show "id_Image (newImage p) = id_Image (newImage q)" by (simp add: newImage_def)
qed

lemma distinct_map_cong:
  assumes "\<And>x y. f x = f y \<longleftrightarrow> g x = g y"
  shows "distinct (map f xs) \<longleftrightarrow> distinct (map g xs)"
proof (induction xs)
  case Nil
  then show ?case by simp
next
  case (Cons x xs)
  have "f x \<in> f ` set xs \<longleftrightarrow> g x \<in> g ` set xs"
    using assms by (auto simp: image_iff)
  with Cons show ?case by simp
qed

lemma disjoint_image: "A \<inter> f ` B = {} \<longleftrightarrow> (\<forall>p \<in> B. f p \<notin> A)"
  by auto

lemma new_ids_distinct:
  "distinct (map id_Image (map newImage fs)) \<longleftrightarrow> distinct (map (\<lambda>p. (now p, random36 p)) fs)"
proof -
  have "distinct (map (\<lambda>p. id_Image (newImage p)) fs) \<longleftrightarrow> distinct (map (\<lambda>p. (now p, random36 p)) fs)"
    by (rule distinct_map_cong) (simp add: image_id_inj)
  then show ?thesis by (simp add: comp_def)
qed

section \<open>The gallery after an upload\<close>

text \<open>
  C9 (as amended). An upload with at least one file never throws; whenever the
  handler returns, the gallery is the old gallery followed by the new images,
  which carry the picked files in input order. The ids are not unique by
  construction: two generated ids are equal exactly when the clock value and
  the random string of their files are equal, so the ids of the updated gallery
  are pairwise distinct exactly when the old ids are, the (clock, random string)
  pairs of the new files are, and no new id is among the old ones.
\<close>

theorem C9_gallery_append:
  "(fs \<noteq> [] \<longrightarrow> (\<exists>st'. handleImageUpload (Some fs) st = Inr st'))
   \<and> (\<forall>st'. handleImageUpload (Some fs) st = Inr st' \<longrightarrow>
         images st' = images st @ map newImage fs
       \<and> map file_Image (map newImage fs) = map picked_file fs
       \<and> (\<forall>p q. id_Image (newImage p) = id_Image (newImage q) \<longleftrightarrow>
                  now p = now q \<and> random36 p = random36 q)
       \<and> (distinct (map id_Image (images st')) \<longleftrightarrow>
            distinct (map id_Image (images st))
          \<and> distinct (map (\<lambda>p. (now p, random36 p)) fs)
          \<and> (\<forall>p \<in> set fs. id_Image (newImage p) \<notin> id_Image ` set (images st))))"
proof (intro conjI allI impI)
  assume "fs \<noteq> []"
  then show "\<exists>st'. handleImageUpload (Some fs) st = Inr st'"
    using upload_total [of st fs] by simp
next
  fix st' assume "handleImageUpload (Some fs) st = Inr st'"
  then show "images st' = images st @ map newImage fs" by (rule upload_Inr(1))
next
  show "map file_Image (map newImage fs) = map picked_file fs"
    by (simp add: newImage_def comp_def)
next
  fix p q
  show "id_Image (newImage p) = id_Image (newImage q) \<longleftrightarrow>
          now p = now q \<and> random36 p = random36 q"
    by (rule image_id_inj)
next
  fix st' assume "handleImageUpload (Some fs) st = Inr st'"
  then have u: "images st' = images st @ map newImage fs" by (rule upload_Inr(1))
  show "distinct (map id_Image (images st')) \<longleftrightarrow>
            distinct (map id_Image (images st))
          \<and> distinct (map (\<lambda>p. (now p, random36 p)) fs)
          \<and> (\<forall>p \<in> set fs. id_Image (newImage p) \<notin> id_Image ` set (images st))"
  proof -
    have d: "distinct (map id_Image (images st @ map newImage fs)) \<longleftrightarrow>
               distinct (map id_Image (images st))
             \<and> distinct (map id_Image (map newImage fs))
             \<and> id_Image ` set (images st) \<inter> (\<lambda>p. id_Image (newImage p)) ` set fs = {}"
      by (simp add: image_image)
    have e: "id_Image ` set (images st) \<inter> (\<lambda>p. id_Image (newImage p)) ` set fs = {} \<longleftrightarrow>
             (\<forall>p \<in> set fs. id_Image (newImage p) \<notin> id_Image ` set (images st))"
      by (rule disjoint_image)
    show ?thesis unfolding u d e new_ids_distinct ..
  qed
qed

theorem C9_gallery_append_witness:
  "[pictureA, pictureB] \<noteq> []
   \<and> handleImageUpload (Some [pictureA, pictureB]) initialApp
       = Inr (initialApp\<lparr>images := [newImage pictureA, newImage pictureB]\<rparr>)
   \<and> distinct (map (\<lambda>p. (now p, random36 p)) [pictureA, pictureB])
   \<and> distinct (map id_Image (images (initialApp\<lparr>images := [newImage pictureA, newImage pictureB]\<rparr>)))"
proof -
  have a: "handleImageUpload (Some [pictureA, pictureB]) initialApp
       = Inr (initialApp\<lparr>images := [newImage pictureA, newImage pictureB]\<rparr>)"
    by (simp add: handleImageUpload_def initialApp_def)
  have b: "distinct (map (\<lambda>p. (now p, random36 p)) [pictureA, pictureB])"
    by (simp add: pictureA_def pictureB_def)
  have c: "images initialApp = []" by (simp add: initialApp_def)
  from C9_gallery_append [of "[pictureA, pictureB]" initialApp] a b c show ?thesis by simp
qed

text \<open>
  C9 as stated fails: two different files of one upload, read at the same clock
  value and with the same random string, receive the same id.
\<close>

theorem C9_unique_ids_counterexample:
  "handleImageUpload (Some [pictureA, collidingB]) initialApp = Inr collidedApp
   \<and> picked_file pictureA \<noteq> picked_file collidingB
   \<and> map id_Image (images collidedApp) = [''img-5-abc'', ''img-5-abc'']
   \<and> \<not> distinct (map id_Image (images collidedApp))"
proof -
  have a: "handleImageUpload (Some [pictureA, collidingB]) initialApp = Inr collidedApp"
    by (simp add: handleImageUpload_def initialApp_def collidedApp_def)
  have b: "picked_file pictureA \<noteq> picked_file collidingB"
    by (simp add: pictureA_def collidingB_def)
  have c: "map id_Image (images collidedApp) = [''img-5-abc'', ''img-5-abc'']"
    by (simp add: collidedApp_def example_ids)
  from a b c show ?thesis by simp
qed

section \<open>Auto-fill never replaces an assignment\<close>

lemma newImage_id_nonempty: "id_Image (newImage p) \<noteq> []"
  by (simp add: newImage_def)

lemma assigned_nonempty_nth:
  "assigned_nonempty xs \<longleftrightarrow> (\<forall>i<length xs. assignedImageId (xs ! i) \<noteq> Some [])"
  by (simp add: assigned_nonempty_def list_all_length)

lemma ids_nonempty_nth: "ids_nonempty imgs \<Longrightarrow> i < length imgs \<Longrightarrow> id_Image (imgs ! i) \<noteq> []"
  by (simp add: ids_nonempty_def list_all_length)

lemma match_assigned_nonempty:
  assumes "ids_nonempty imgs" "assigned_nonempty xs"
  shows "assigned_nonempty (matchImagesToSegments xs imgs)"
proof (cases "imgs = []")
  case True
  with assms(2) show ?thesis by (simp add: match_empty)
next
  case False
  then have "i mod length imgs < length imgs" for i by simp
  then have "id_Image (imgs ! (i mod length imgs)) \<noteq> []" for i
    using ids_nonempty_nth [OF assms(1)] by blast
  with False show ?thesis
    by (simp add: assigned_nonempty_nth match_length match_nth)
qed

lemma analyze_assigned_nonempty:
  "analyzeAudioAndSegment clock response = Inr fresh \<Longrightarrow> assigned_nonempty fresh"
  using analyze_unassigned [of clock response fresh]
  by (auto simp: assigned_nonempty_def list_all_iff)

lemma settle_inv:
  assumes "ids_nonempty imgs" "assigned_nonempty (segs st)"
  shows "assigned_nonempty (segs (handleAudioUpload_settle imgs (analyzeAudioAndSegment clock response) st))"
    and "images (handleAudioUpload_settle imgs (analyzeAudioAndSegment clock response) st) = images st"
proof -
  show "assigned_nonempty (segs (handleAudioUpload_settle imgs (analyzeAudioAndSegment clock response) st))"
  proof (cases "analyzeAudioAndSegment clock response")
    case (Inl m)
    with assms(2) show ?thesis by (simp add: handleAudioUpload_settle_def)
  next
    case (Inr fresh)
    from analyze_assigned_nonempty [OF Inr] assms(1)
    have "assigned_nonempty (matchImagesToSegments fresh imgs)"
      by (simp add: match_assigned_nonempty)
    with Inr show ?thesis by (simp add: handleAudioUpload_settle_def)
  qed
  show "images (handleAudioUpload_settle imgs (analyzeAudioAndSegment clock response) st) = images st"
    by (simp add: handleAudioUpload_settle_def split: sum.split)
qed

lemma upload_keeps_truthy:
  assumes "handleImageUpload files st = Inr st'" "i < length (segs st)"
    "\<not> falsy (assignedImageId (segs st ! i))"
  shows "segs st' ! i = segs st ! i"
proof (cases files)
  case None
  with assms(1) show ?thesis by (simp add: upload_None)
next
  case (Some fs)
  with assms(1) have "autoAssign (images st') (i, segs st ! i) = Inr (segs st' ! i)"
    using upload_Inr(3) assms(2) by blast
  from autoAssign_cases [OF this] assms(3) show ?thesis by simp
qed

lemma upload_length:
  "handleImageUpload files st = Inr st' \<Longrightarrow> length (segs st') = length (segs st)"
  by (cases files) (auto simp: upload_None dest: upload_Inr(2))

lemma upload_inv:
  assumes "handleImageUpload files st = Inr st'" "ids_nonempty (images st)"
    "assigned_nonempty (segs st)"
  shows "ids_nonempty (images st') \<and> assigned_nonempty (segs st')"
proof (cases files)
  case None
  with assms show ?thesis by (simp add: upload_None)
next
  case (Some fs)
  note u = upload_Inr [OF assms(1) [unfolded Some]]
  have g: "ids_nonempty (images st')"
    using assms(2) unfolding u(1) by (auto simp: ids_nonempty_def list_all_iff newImage_id_nonempty)
  have "assignedImageId (segs st' ! i) \<noteq> Some []" if i: "i < length (segs st)" for i
  proof -
    from u(3) i have a: "autoAssign (images st') (i, segs st ! i) = Inr (segs st' ! i)" by blast
    show ?thesis
    proof (cases "falsy (assignedImageId (segs st ! i))")
      case True
      with autoAssign_cases [OF a] have ne: "images st' \<noteq> []"
        and eq: "segs st' ! i = (segs st ! i)\<lparr>assignedImageId :=
                   Some (id_Image (images st' ! (i mod length (images st'))))\<rparr>" by simp_all
      from ne have "i mod length (images st') < length (images st')" by simp
      from ids_nonempty_nth [OF g this] eq show ?thesis by simp
    next
      case False
      with autoAssign_cases [OF a] have "segs st' ! i = segs st ! i" by simp
      with assms(3) i show ?thesis by (simp add: assigned_nonempty_nth)
    qed
  qed
  then have "assigned_nonempty (segs st')" by (simp add: assigned_nonempty_nth u(2))
  with g show ?thesis by simp
qed

lemma assign_inv:
  "iid \<noteq> [] \<Longrightarrow> assigned_nonempty (segs st) \<Longrightarrow>
     assigned_nonempty (segs (assignImageToSegment sid iid st))"
  by (simp add: assigned_nonempty_nth assign_length assign_nth)

lemma fire_inv:
  assumes "sys_inv s" "fire e s = Some s'"
  shows "sys_inv s'"
proof (cases e)
  case (AudioPicked picked objectUrl)
  with assms show ?thesis
    by (cases picked) (auto simp: sys_inv_def handleAudioUpload_begin_def assigned_nonempty_def)
next
  case (MetadataLoaded k d)
  with assms(2) have k: "k < length (inflight s)"
    and s': "s' = s\<lparr>app := onloadedmetadata d (app s),
                   inflight := (inflight s)[k := (fst (inflight s ! k), True)]\<rparr>"
    by (auto split: if_splits)
  from assms(1) k have "ids_nonempty (fst (inflight s ! k))"
    by (simp add: sys_inv_def list_all_length)
  with assms(1) k have "list_all (\<lambda>p. ids_nonempty (fst p)) ((inflight s)[k := (fst (inflight s ! k), True)])"
    by (auto simp: sys_inv_def list_all_length nth_list_update)
  with assms(1) show ?thesis unfolding s' by (simp add: sys_inv_def onloadedmetadata_def)
next
  case (AnalysisSettled k clock response)
  with assms(2) have k: "k < length (inflight s)"
    and s': "s' = s\<lparr>app := handleAudioUpload_settle (fst (inflight s ! k))
                             (analyzeAudioAndSegment clock response) (app s),
                   inflight := take k (inflight s) @ drop (Suc k) (inflight s)\<rparr>"
    by (auto split: if_splits)
  from assms(1) k have g: "ids_nonempty (fst (inflight s ! k))"
    by (simp add: sys_inv_def list_all_length)
  from assms(1) have a: "assigned_nonempty (segs (app s))" by (simp add: sys_inv_def)
  have "list_all (\<lambda>p. ids_nonempty (fst p)) (take k (inflight s) @ drop (Suc k) (inflight s))"
    using assms(1) by (auto simp: sys_inv_def list_all_iff dest: in_set_takeD in_set_dropD)
  with settle_inv [OF g a] assms(1) show ?thesis unfolding s' by (simp add: sys_inv_def)
next
  case (ImagesPicked files)
  with assms(2) obtain app' where u: "handleImageUpload files (app s) = Inr app'"
    and s': "s' = s\<lparr>app := app'\<rparr>"
    by (auto split: sum.splits)
  from upload_inv [OF u] assms(1) show ?thesis unfolding s' by (simp add: sys_inv_def)
next
  case (Dropped segmentId imageId)
  show ?thesis
  proof (cases "imageId = []")
    case True
    with Dropped assms show ?thesis by (simp add: handleDrop_def)
  next
    case False
    with Dropped assms(2)
    have s': "s' = s\<lparr>app := assignImageToSegment segmentId imageId (app s)\<rparr>"
      by (simp add: handleDrop_def)
    have "images (assignImageToSegment segmentId imageId (app s)) = images (app s)"
      by (simp add: assignImageToSegment_def)
    with assign_inv [OF False, of "app s" segmentId] assms(1) show ?thesis
      unfolding s' by (simp add: sys_inv_def)
  qed
next
  case (TimeChanged t)
  with assms show ?thesis by (auto simp: sys_inv_def)
qed

lemma run_inv: "sys_inv s \<Longrightarrow> run es s = Some s' \<Longrightarrow> sys_inv s'"
proof (induction es arbitrary: s)
  case Nil
  then show ?case by simp
next
  case (Cons e es)
  from Cons.prems(2) obtain s1 where f: "fire e s = Some s1" and r: "run es s1 = Some s'"
    by (auto split: option.splits)
  from fire_inv [OF Cons.prems(1) f] have "sys_inv s1" .
  from Cons.IH [OF this r] show ?case .
qed

lemma initial_inv: "sys_inv initialSys"
  by (simp add: sys_inv_def initialSys_def initialApp_def assigned_nonempty_def ids_nonempty_def)

lemma reachable_inv: "reachable s \<Longrightarrow> sys_inv s"
  unfolding reachable_def using run_inv [OF initial_inv] by blast

lemma reachable_set_is_truthy:
  assumes "reachable s" "i < length (segs (app s))" "assignedImageId (segs (app s) ! i) \<noteq> None"
  shows "\<not> falsy (assignedImageId (segs (app s) ! i))"
proof -
  from reachable_inv [OF assms(1)] assms(2)
  have "assignedImageId (segs (app s) ! i) \<noteq> Some []"
    by (simp add: sys_inv_def assigned_nonempty_nth)
  with assms(3) show ?thesis by (auto simp: falsy_def split: option.splits)
qed

text \<open>
  C3. In every state the component can reach, by any sequence of audio uploads,
  metadata events, settled analyses, image uploads, drops and time changes:
  an image upload keeps the number of segments and leaves every segment whose
  \<open>assignedImageId\<close> is set exactly as it is; and a settling analysis either
  leaves the segment list alone (the call rejected) or installs the round-robin
  fill of freshly created segments, none of which had an assignment.
\<close>

theorem C3_autofill_keeps_assignments:
  "reachable s \<longrightarrow>
     (\<forall>files s'. fire (ImagesPicked files) s = Some s' \<longrightarrow>
          length (segs (app s')) = length (segs (app s))
        \<and> (\<forall>i<length (segs (app s)). assignedImageId (segs (app s) ! i) \<noteq> None \<longrightarrow>
              segs (app s') ! i = segs (app s) ! i))
   \<and> (\<forall>k clock response s'. fire (AnalysisSettled k clock response) s = Some s' \<longrightarrow>
          (\<exists>fresh. analyzeAudioAndSegment clock response = Inr fresh
                 \<and> (\<forall>seg \<in> set fresh. assignedImageId seg = None)
                 \<and> segs (app s') = matchImagesToSegments fresh (fst (inflight s ! k)))
        \<or> segs (app s') = segs (app s))"
proof
  assume r: "reachable s"
  have A: "length (segs (app s')) = length (segs (app s))
        \<and> (\<forall>i<length (segs (app s)). assignedImageId (segs (app s) ! i) \<noteq> None \<longrightarrow>
              segs (app s') ! i = segs (app s) ! i)"
    if f: "fire (ImagesPicked files) s = Some s'" for files s'
  proof -
    from f obtain app' where u: "handleImageUpload files (app s) = Inr app'"
      and s': "app s' = app'"
      by (auto split: sum.splits)
    show ?thesis unfolding s'
      using upload_length [OF u] upload_keeps_truthy [OF u] reachable_set_is_truthy [OF r]
      by blast
  qed
  have B: "(\<exists>fresh. analyzeAudioAndSegment clock response = Inr fresh
                 \<and> (\<forall>seg \<in> set fresh. assignedImageId seg = None)
                 \<and> segs (app s') = matchImagesToSegments fresh (fst (inflight s ! k)))
        \<or> segs (app s') = segs (app s)"
    if f: "fire (AnalysisSettled k clock response) s = Some s'" for k clock response s'
  proof -
    from f have s': "app s' = handleAudioUpload_settle (fst (inflight s ! k))
                             (analyzeAudioAndSegment clock response) (app s)"
      by (auto split: if_splits)
    show ?thesis
    proof (cases "analyzeAudioAndSegment clock response")
      case (Inl m)
      then show ?thesis unfolding s' by (simp add: handleAudioUpload_settle_def)
    next
      case (Inr fresh)
      then have "segs (app s') = matchImagesToSegments fresh (fst (inflight s ! k))"
        unfolding s' by (simp add: handleAudioUpload_settle_def)
      with Inr analyze_unassigned [OF Inr] show ?thesis by blast
    qed
  qed
  from A B show "(\<forall>files s'. fire (ImagesPicked files) s = Some s' \<longrightarrow>
          length (segs (app s')) = length (segs (app s))
        \<and> (\<forall>i<length (segs (app s)). assignedImageId (segs (app s) ! i) \<noteq> None \<longrightarrow>
              segs (app s') ! i = segs (app s) ! i))
   \<and> (\<forall>k clock response s'. fire (AnalysisSettled k clock response) s = Some s' \<longrightarrow>
          (\<exists>fresh. analyzeAudioAndSegment clock response = Inr fresh
                 \<and> (\<forall>seg \<in> set fresh. assignedImageId seg = None)
                 \<and> segs (app s') = matchImagesToSegments fresh (fst (inflight s ! k)))
        \<or> segs (app s') = segs (app s))"
    by blast
qed

theorem C3_autofill_keeps_assignments_witness:
  "reachable exampleSys
   \<and> map assignedImageId (segs (app exampleSys)) = [None, Some ''img-3-xyz'', None]
   \<and> fire (ImagesPicked (Some [pictureA, pictureB])) exampleSys \<noteq> None
   \<and> map assignedImageId
        (segs (app (the (fire (ImagesPicked (Some [pictureA, pictureB])) exampleSys))))
       = [Some ''img-5-abc'', Some ''img-3-xyz'', Some ''img-5-abc'']
   \<and> fire (AnalysisSettled 0 (\<lambda>index. 7) (Some exampleRaw))
        (exampleSys\<lparr>inflight := [([newImage pictureA], True)]\<rparr>) \<noteq> None"
proof -
  have a: "reachable exampleSys"
    unfolding reachable_def using example_run by blast
  have b: "map assignedImageId (segs (app exampleSys)) = [None, Some ''img-3-xyz'', None]"
    by (simp add: exampleSys_def exampleApp_def exampleSegments_def assignImageToSegment_def)
  have c: "handleImageUpload (Some [pictureA, pictureB]) (app exampleSys)
           = Inr ((app exampleSys)\<lparr>project := (project (app exampleSys))\<lparr>segments :=
                [(exampleSegments ! 0)\<lparr>assignedImageId := Some ''img-5-abc''\<rparr>,
                 (exampleSegments ! 1)\<lparr>assignedImageId := Some ''img-3-xyz''\<rparr>,
                 (exampleSegments ! 2)\<lparr>assignedImageId := Some ''img-5-abc''\<rparr>]\<rparr>,
               images := [newImage pictureA, newImage pictureB]\<rparr>)"
    by (simp add: handleImageUpload_def autoAssign_def falsy_def example_ids exampleSys_def
        exampleApp_def exampleSegments_def assignImageToSegment_def)
  have d: "fire (ImagesPicked (Some [pictureA, pictureB])) exampleSys \<noteq> None"
    by (simp add: c)
  have e: "map assignedImageId
        (segs (app (the (fire (ImagesPicked (Some [pictureA, pictureB])) exampleSys))))
       = [Some ''img-5-abc'', Some ''img-3-xyz'', Some ''img-5-abc'']"
    by (simp add: c)
  have f: "fire (AnalysisSettled 0 (\<lambda>index. 7) (Some exampleRaw))
        (exampleSys\<lparr>inflight := [([newImage pictureA], True)]\<rparr>) \<noteq> None"
    by simp
  from C3_autofill_keeps_assignments [of exampleSys] a b d e f show ?thesis by simp
qed

section \<open>A failed analysis\<close>

lemma fire_keeps_empty:
  assumes "segs (app s) = []" "\<not> installs_segments e" "fire e s = Some s'"
  shows "segs (app s') = []"
proof (cases e)
  case (AudioPicked picked objectUrl)
  with assms show ?thesis by (cases picked) (auto simp: handleAudioUpload_begin_def)
next
  case (MetadataLoaded k d)
  with assms show ?thesis by (auto simp: onloadedmetadata_def split: if_splits)
next
  case (AnalysisSettled k clock response)
  with assms(2) have "response = None" by (cases response) simp_all
  with AnalysisSettled assms show ?thesis
    by (auto simp: handleAudioUpload_settle_def analyzeAudioAndSegment_def split: if_splits)
next
  case (ImagesPicked files)
  with assms(3) obtain app' where u: "handleImageUpload files (app s) = Inr app'"
    and s': "app s' = app'"
    by (auto split: sum.splits)
  from upload_length [OF u] assms(1) show ?thesis unfolding s' by simp
next
  case (Dropped segmentId imageId)
  with assms show ?thesis by (auto simp: handleDrop_def assignImageToSegment_def)
next
  case (TimeChanged t)
  with assms show ?thesis by auto
qed

lemma run_keeps_empty:
  "segs (app s) = [] \<Longrightarrow> list_all (\<lambda>e. \<not> installs_segments e) es \<Longrightarrow> run es s = Some s' \<Longrightarrow>
     segs (app s') = []"
proof (induction es arbitrary: s)
  case Nil
  then show ?case by simp
next
  case (Cons e es)
  from Cons.prems(3) obtain s1 where f: "fire e s = Some s1" and r: "run es s1 = Some s'"
    by (auto split: option.splits)
  from Cons.prems(2) have ne: "\<not> installs_segments e"
    and rest: "list_all (\<lambda>e. \<not> installs_segments e) es" by simp_all
  from fire_keeps_empty [OF Cons.prems(1) ne f] have "segs (app s1) = []" .
  from Cons.IH [OF this rest r] show ?case .
qed

lemma settle_rejected:
  assumes "fire (AnalysisSettled k clock None) s = Some s'"
  shows "status (processing (app s')) = error"
    and "message (processing (app s')) = analysisErrorMessage"
    and "project (app s') = project (app s)"
    and "images (app s') = images (app s)"
    and "currentTime (app s') = currentTime (app s)"
proof -
  from assms have "app s' = handleAudioUpload_settle (fst (inflight s ! k))
                             (analyzeAudioAndSegment clock None) (app s)"
    by (auto split: if_splits)
  then show "status (processing (app s')) = error"
    and "message (processing (app s')) = analysisErrorMessage"
    and "project (app s') = project (app s)"
    and "images (app s') = images (app s)"
    and "currentTime (app s') = currentTime (app s)"
    by (simp_all add: handleAudioUpload_settle_def analyzeAudioAndSegment_def
        analysisErrorMessage_def)
qed

lemma two_uploads_run: "run twoUploads initialSys = Some pendingSys"
  by (simp add: twoUploads_def initialSys_def initialApp_def pendingSys_def exampleApp_def
      handleAudioUpload_begin_def onloadedmetadata_def handleAudioUpload_settle_def
      example_analysis matchImagesToSegments_def talk_def)

lemma run_append:
  "run (xs @ ys) s = (case run xs s of None \<Rightarrow> None | Some s' \<Rightarrow> run ys s')"
  by (induction xs arbitrary: s) (auto split: option.splits)

lemma first_upload_run:
  "run [AudioPicked (Some talk) ''blob:talk'', MetadataLoaded 0 18,
        AnalysisSettled 0 (\<lambda>index. 7) (Some exampleRaw)] initialSys
   = Some \<lparr>app = exampleApp\<lparr>currentTime := 0\<rparr>, inflight = []\<rparr>"
  by (simp add: initialSys_def initialApp_def exampleApp_def
      handleAudioUpload_begin_def onloadedmetadata_def handleAudioUpload_settle_def
      example_analysis matchImagesToSegments_def talk_def)

lemma failed_upload_run:
  "map_option (\<lambda>s. (status (processing (app s)), segs (app s)))
     (run [AudioPicked (Some talk) ''blob:talk'', MetadataLoaded 0 18,
           AnalysisSettled 0 (\<lambda>index. 9) None] \<lparr>app = exampleApp\<lparr>currentTime := 0\<rparr>, inflight = []\<rparr>)
   = Some (error, [])"
  by (simp add: exampleApp_def handleAudioUpload_begin_def onloadedmetadata_def
      handleAudioUpload_settle_def analyzeAudioAndSegment_def)

text \<open>
  C2 (as amended). When the analysis call of an upload rejects, in whatever
  state of the component, the status becomes \<open>error\<close> with the (non-empty)
  message of the rejection and nothing else changes: the project, with the
  segment list it held just before, and the gallery stay as they were, so the
  failed call installs no segments. The list from before the upload is not
  kept: picking the audio file empties the segment list, and the list is still
  empty when the rejection arrives unless the analysis of another upload has
  resolved in between.
\<close>

theorem C2_analysis_failure:
  "(\<forall>k clock s'. fire (AnalysisSettled k clock None) s = Some s' \<longrightarrow>
        status (processing (app s')) = error
      \<and> message (processing (app s')) = analysisErrorMessage
      \<and> analysisErrorMessage \<noteq> []
      \<and> project (app s') = project (app s)
      \<and> images (app s') = images (app s))
   \<and> (\<forall>f objectUrl s1. fire (AudioPicked (Some f) objectUrl) s = Some s1 \<longrightarrow>
        segs (app s1) = []
      \<and> (\<forall>es s2 k clock s3.
            run es s1 = Some s2 \<and> list_all (\<lambda>e. \<not> installs_segments e) es
            \<and> fire (AnalysisSettled k clock None) s2 = Some s3 \<longrightarrow>
            segs (app s3) = [] \<and> status (processing (app s3)) = error))"
proof (intro conjI allI impI)
  fix k clock s' assume f: "fire (AnalysisSettled k clock None) s = Some s'"
  from settle_rejected [OF f]
  show "status (processing (app s')) = error"
    and "message (processing (app s')) = analysisErrorMessage"
    and "project (app s') = project (app s)"
    and "images (app s') = images (app s)"
    by simp_all
  show "analysisErrorMessage \<noteq> []" by (simp add: analysisErrorMessage_def)
next
  fix f objectUrl s1 assume "fire (AudioPicked (Some f) objectUrl) s = Some s1"
  then show "segs (app s1) = []" by (auto simp: handleAudioUpload_begin_def)
next
  fix f objectUrl s1 es s2 k clock s3
  assume b: "fire (AudioPicked (Some f) objectUrl) s = Some s1"
    and r: "run es s1 = Some s2 \<and> list_all (\<lambda>e. \<not> installs_segments e) es
            \<and> fire (AnalysisSettled k clock None) s2 = Some s3"
  from b have "segs (app s1) = []" by (auto simp: handleAudioUpload_begin_def)
  with r have "segs (app s2) = []" using run_keeps_empty by blast
  with settle_rejected(3) [of k clock s2 s3] r show "segs (app s3) = []" by simp
  from settle_rejected(1) [of k clock s2 s3] r show "status (processing (app s3)) = error" by simp
qed

theorem C2_analysis_failure_witness:
  "run twoUploads initialSys = Some pendingSys
   \<and> segs (app pendingSys) = exampleSegments
   \<and> fire (AnalysisSettled 0 (\<lambda>index. 9) None) pendingSys
       = Some (pendingSys\<lparr>app := (app pendingSys)\<lparr>processing :=
                 \<lparr>status = error, message = analysisErrorMessage\<rparr>\<rparr>, inflight := []\<rparr>)
   \<and> fire (AudioPicked (Some talk) ''blob:talk'') pendingSys
       = Some (pendingSys\<lparr>app := handleAudioUpload_begin talk ''blob:talk'' (app pendingSys),
                 inflight := [([], True), ([], False)]\<rparr>)
   \<and> map_option (\<lambda>s. (status (processing (app s)), segs (app s)))
         (run [AudioPicked (Some talk) ''blob:talk'', MetadataLoaded 1 18, TimeChanged 3,
               AnalysisSettled 1 (\<lambda>index. 9) None] pendingSys)
       = Some (error, [])"
proof -
  have a: "segs (app pendingSys) = exampleSegments"
    by (simp add: pendingSys_def exampleApp_def)
  have b: "fire (AnalysisSettled 0 (\<lambda>index. 9) None) pendingSys
       = Some (pendingSys\<lparr>app := (app pendingSys)\<lparr>processing :=
                 \<lparr>status = error, message = analysisErrorMessage\<rparr>\<rparr>, inflight := []\<rparr>)"
    by (simp add: pendingSys_def handleAudioUpload_settle_def analyzeAudioAndSegment_def
        analysisErrorMessage_def)
  have c: "fire (AudioPicked (Some talk) ''blob:talk'') pendingSys
       = Some (pendingSys\<lparr>app := handleAudioUpload_begin talk ''blob:talk'' (app pendingSys),
                 inflight := [([], True), ([], False)]\<rparr>)"
    by (simp add: pendingSys_def exampleApp_def)
  have d: "map_option (\<lambda>s. (status (processing (app s)), segs (app s)))
         (run [AudioPicked (Some talk) ''blob:talk'', MetadataLoaded 1 18, TimeChanged 3,
               AnalysisSettled 1 (\<lambda>index. 9) None] pendingSys)
       = Some (error, [])"
    by (simp add: pendingSys_def exampleApp_def handleAudioUpload_begin_def onloadedmetadata_def
        handleAudioUpload_settle_def analyzeAudioAndSegment_def)
  from C2_analysis_failure [of pendingSys] b
  have e: "project (app (pendingSys\<lparr>app := (app pendingSys)\<lparr>processing :=
                 \<lparr>status = error, message = analysisErrorMessage\<rparr>\<rparr>, inflight := []\<rparr>))
           = project (app pendingSys)"
    by blast
  from two_uploads_run a b c d e show ?thesis by (simp only: simp_thms)
qed

text \<open>
  C2 as stated fails: a first upload succeeds and leaves three segments; a
  second upload whose analysis rejects leaves none.
\<close>

theorem C2_prior_segments_counterexample:
  "segs exampleApp \<noteq> []
   \<and> map_option (\<lambda>s. (status (processing (app s)), segs (app s)))
         (run [AudioPicked (Some talk) ''blob:talk'', MetadataLoaded 0 18,
               AnalysisSettled 0 (\<lambda>index. 7) (Some exampleRaw)] initialSys)
       = Some (ready, segs exampleApp)
   \<and> map_option (\<lambda>s. (status (processing (app s)), segs (app s)))
         (run ([AudioPicked (Some talk) ''blob:talk'', MetadataLoaded 0 18,
                AnalysisSettled 0 (\<lambda>index. 7) (Some exampleRaw)]
               @ [AudioPicked (Some talk) ''blob:talk'', MetadataLoaded 0 18,
                  AnalysisSettled 0 (\<lambda>index. 9) None]) initialSys)
       = Some (error, [])"
proof -
  have a: "segs exampleApp \<noteq> []" by (simp add: exampleApp_def exampleSegments_def)
  have b: "map_option (\<lambda>s. (status (processing (app s)), segs (app s)))
         (run [AudioPicked (Some talk) ''blob:talk'', MetadataLoaded 0 18,
               AnalysisSettled 0 (\<lambda>index. 7) (Some exampleRaw)] initialSys)
       = Some (ready, segs exampleApp)"
    unfolding first_upload_run by (simp add: exampleApp_def)
  have c: "map_option (\<lambda>s. (status (processing (app s)), segs (app s)))
         (run ([AudioPicked (Some talk) ''blob:talk'', MetadataLoaded 0 18,
                AnalysisSettled 0 (\<lambda>index. 7) (Some exampleRaw)]
               @ [AudioPicked (Some talk) ''blob:talk'', MetadataLoaded 0 18,
                  AnalysisSettled 0 (\<lambda>index. 9) None]) initialSys)
       = Some (error, [])"
    unfolding run_append first_upload_run using failed_upload_run by simp
  from a b c show ?thesis by (simp only: simp_thms)
qed

section \<open>Seek by click\<close>

text \<open>
  Values of the rounding, and what the handler computes: the clamp of the
  rounded quotient of the offset inside the container by the container's width,
  times the duration, rounded again. A click at a third of a container of width
  3 on a track of 40 seconds seeks to the double \<open>13.333333333333332\<close>; a click
  at half of the container's width seeks to exactly 20.
\<close>

lemma fl_half: "fl (1 / 2) = Num (1 / 2)"
  by (simp add: fl_def fl_pos_def scale_up.simps scale_down.simps round_half_even_def pow2_def)

lemma fl_20: "fl 20 = Num 20"
  by (simp add: fl_def fl_pos_def scale_up.simps scale_down.simps round_half_even_def pow2_def)

lemma fl_small_integers:
  "fl 1 = Num 1" "fl 40 = Num 40" "fl 1000 = Num 1000" "fl 2000 = Num 2000"
  by (simp_all add: fl_def fl_pos_def scale_up.simps scale_down.simps round_half_even_def pow2_def)

lemma fl_third: "fl (1 / 3) = Num (6004799503160661 / 18014398509481984)"
  by (simp add: fl_def fl_pos_def scale_up.simps scale_down.simps round_half_even_def pow2_def)

lemma fl_third_product:
  "fl (30023997515803305 / 2251799813685248) = Num (3752999689475413 / 281474976710656)"
  by (simp add: fl_def fl_pos_def scale_up.simps scale_down.simps round_half_even_def pow2_def)

lemma clamp_number: "Math_max (Num 0) (Math_min (Num 1) (Num v)) = Num (clamp v 0 1)"
  by (auto simp: clamp_def)

lemma third_of_container_click:
  "handleTimelineClick (Some \<lparr>left = 0, width = 3\<rparr>) (Num 40) 1 (\<lambda>t log. t # log) []
   = [Num (3752999689475413 / 281474976710656)]"
  by (simp add: handleTimelineClick_def minus_number_def divide_number_def fl_small_integers
      fl_third fl_third_product)

lemma half_container_click:
  assumes "0 < w" "minus_number clientX l = Num (w / 2)"
  shows "handleTimelineClick (Some \<lparr>left = l, width = w\<rparr>) (Num 40) clientX onSeek st
         = onSeek (Num 20) st"
proof -
  have "divide_number (Num (w / 2)) w = Num (1 / 2)"
    using assms(1) by (simp add: divide_number_def fl_half)
  then show ?thesis
    using assms(2) by (simp add: handleTimelineClick_def fl_20)
qed

lemma zero_width_click:
  assumes "dur \<noteq> Num 0" "minus_number clientX l = Num x"
  shows "handleTimelineClick (Some \<lparr>left = l, width = 0\<rparr>) dur clientX onSeek st =
           onSeek (if 0 < x then times_number (Num 1) dur
                   else if x < 0 then times_number (Num 0) dur else NaN) st"
  using assms by (simp add: handleTimelineClick_def divide_number_def)

text \<open>
  C8 fails on the code, which measures the scrollable container and not the
  track. A track of 40 seconds is 2000 pixels wide, and the mark of 20 seconds,
  where the playhead stands at that time, is at half of its width, 1000 pixels
  from its left edge. In a container 1000 pixels wide with its left edge at 0
  and not scrolled, a click on that mark has \<open>clientX = 1000\<close>, and the handler
  seeks to 40; with the container scrolled by 1000 pixels the click on the same
  mark has \<open>clientX = 0\<close>, and the handler seeks to 0. The claim says 20.
\<close>

theorem C8_click_measures_container:
  "totalWidth (Num 40) = Num 2000
   \<and> playheadLeft (Num 20) = Num 1000
   \<and> clientX_on_track \<lparr>left = 0, width = 1000\<rparr> 0 1000 = 1000
   \<and> handleTimelineClick (Some \<lparr>left = 0, width = 1000\<rparr>) (Num 40)
        (clientX_on_track \<lparr>left = 0, width = 1000\<rparr> 0 1000) (\<lambda>t log. t # log) []
       = [Num 40]
   \<and> clientX_on_track \<lparr>left = 0, width = 1000\<rparr> 1000 1000 = 0
   \<and> handleTimelineClick (Some \<lparr>left = 0, width = 1000\<rparr>) (Num 40)
        (clientX_on_track \<lparr>left = 0, width = 1000\<rparr> 1000 1000) (\<lambda>t log. t # log) []
       = [Num 0]"
proof -
  have a: "totalWidth (Num 40) = Num 2000"
    by (simp add: totalWidth_def PIXELS_PER_SECOND_def fl_small_integers)
  have b: "playheadLeft (Num 20) = Num 1000"
    by (simp add: playheadLeft_def PIXELS_PER_SECOND_def fl_small_integers)
  have c: "clientX_on_track \<lparr>left = 0, width = 1000\<rparr> 0 1000 = 1000"
    "clientX_on_track \<lparr>left = 0, width = 1000\<rparr> 1000 1000 = 0"
    by (simp_all add: clientX_on_track_def)
  have d: "handleTimelineClick (Some \<lparr>left = 0, width = 1000\<rparr>) (Num 40) 1000 (\<lambda>t log. t # log) []
       = [Num 40]"
    by (simp add: handleTimelineClick_def minus_number_def divide_number_def fl_small_integers)
  have e: "handleTimelineClick (Some \<lparr>left = 0, width = 1000\<rparr>) (Num 40) 0 (\<lambda>t log. t # log) []
       = [Num 0]"
    by (simp add: handleTimelineClick_def minus_number_def divide_number_def fl_def)
  from a b c d e show ?thesis by (simp only: simp_thms)
qed

text \<open>
  C10. With a duration of zero a click never calls \<open>onSeek\<close>: whatever the
  callback would do and wherever the click falls, the state after the click is
  the state before it.
\<close>

theorem C10_zero_duration_no_seek:
  "handleTimelineClick containerRef (Num 0) clientX onSeek st = st"
  by (simp add: handleTimelineClick_def split: option.split)

end
